theory Spec2Isabelle
  imports Complex_Main "HOL-Library.Signed_Division" "HOL-Library.Multiset"
begin

section \<open>The N-puzzle solver: data model\<close>

text \<open>
  The embedding follows \<^verbatim>\<open>npuzzle.h\<close> and the \<^verbatim>\<open>NPuzzle\<close> member functions.
  Tile values are C++ \<^verbatim>\<open>int\<close>s and are modelled as \<^typ>\<open>int\<close>; \<^verbatim>\<open>/\<close> and \<^verbatim>\<open>%\<close> on
  them truncate towards zero and are written \<open>sdiv\<close> and \<open>smod\<close>. Indices, lengths and
  counters are only ever counted up from 0 (or moved under a guard) and are modelled as
  \<^typ>\<open>nat\<close>. The \<^verbatim>\<open>float\<close> costs are modelled as \<^typ>\<open>real\<close>: rounding is not part of
  the model. 32-bit overflow is not modelled either; no counter of the program comes near
  it on a grid that fits in memory.
\<close>

record PuzzleState =
  state :: "int list"
  blankIdx :: nat
  g :: int
  h :: real
  f :: real
  move :: int
  parentKey :: string

text \<open>The default constructor \<^verbatim>\<open>PuzzleState()\<close> and the one taking the puzzle vector.\<close>

definition PuzzleState_default :: PuzzleState where
  "PuzzleState_default =
     \<lparr>state = [], blankIdx = 0, g = 0, h = 0, f = 0, move = 0, parentKey = []\<rparr>"

definition PuzzleState_of :: "int list \<Rightarrow> PuzzleState" where
  "PuzzleState_of v =
     \<lparr>state = v, blankIdx = 0, g = 0, h = 0, f = 0, move = 0, parentKey = []\<rparr>"

text \<open>
  The two \<^verbatim>\<open>unordered_map\<close>s are only ever accessed through \<^verbatim>\<open>operator[]\<close>, which
  yields a default-constructed \<^verbatim>\<open>PuzzleState\<close> for a key that was never stored. They are
  total functions from keys to states, initially constant \<^const>\<open>PuzzleState_default\<close>.
\<close>

record NPuzzle =
  nsz :: int
  len :: nat
  dim :: nat
  expanded :: nat
  maxQueue :: nat
  goalDepth :: nat
  solvable :: bool
  start :: PuzzleState
  result :: "PuzzleState list"
  frontierStates :: "string \<Rightarrow> PuzzleState"
  exploredStates :: "string \<Rightarrow> PuzzleState"

section \<open>Solvability check\<close>

text \<open>The two nested counting loops of \<^verbatim>\<open>isSolvable\<close>.\<close>

definition inversionCount :: "NPuzzle \<Rightarrow> nat" where
  "inversionCount p =
     fold (\<lambda>i cnt.
        if state (start p) ! i = 0 then cnt
        else fold (\<lambda>j cnt.
               if state (start p) ! j = 0 then cnt
               else if state (start p) ! j < state (start p) ! i then cnt + 1
               else cnt)
             [i + 1..<len p] cnt)
       [0..<len p] 0"

definition isSolvable :: "NPuzzle \<Rightarrow> bool" where
  "isSolvable p =
     (if dim p mod 2 = 1 then
        (if inversionCount p mod 2 = 0 then True else False)
      else if inversionCount p mod 2 = 1 \<and>
              (int (dim p) - int (blankIdx (start p) div dim p)) smod 2 = 0 then True
      else if inversionCount p mod 2 = 0 \<and>
              (int (dim p) - int (blankIdx (start p) div dim p)) smod 2 = 1 then True
      else False)"

section \<open>Construction\<close>

text \<open>The constructor's search for the blank: the first index holding 0, else the
  default 0 of \<^verbatim>\<open>PuzzleState(startState)\<close>.\<close>

fun locateBlank :: "int list \<Rightarrow> nat \<Rightarrow> nat" where
  "locateBlank [] i = 0"
| "locateBlank (x # xs) i = (if x = 0 then i else locateBlank xs (Suc i))"

text \<open>\<^verbatim>\<open>dim = sqrt(len)\<close>: the square root as a floating-point number, truncated.\<close>

definition NPuzzle_ctor :: "int list \<Rightarrow> NPuzzle" where
  "NPuzzle_ctor startState =
     (let p = \<lparr>nsz = int (length startState) - 1,
               len = length startState,
               dim = nat \<lfloor>sqrt (real (length startState))\<rfloor>,
               expanded = 0,
               maxQueue = 0,
               goalDepth = 0,
               solvable = False,
               start = (PuzzleState_of startState)\<lparr>blankIdx := locateBlank startState 0\<rparr>,
               result = [],
               frontierStates = (\<lambda>k. PuzzleState_default),
               exploredStates = (\<lambda>k. PuzzleState_default)\<rparr>
      in p\<lparr>solvable := isSolvable p\<rparr>)"

section \<open>Goal test and heuristics\<close>

text \<open>\<^verbatim>\<open>isGoal\<close> leaves its loop at the first misplaced tile.\<close>

fun isGoal_loop :: "int list \<Rightarrow> nat list \<Rightarrow> bool" where
  "isGoal_loop s [] = True"
| "isGoal_loop s (i # is) =
     (if s ! i = 0 then isGoal_loop s is
      else if s ! i \<noteq> int i + 1 then False
      else isGoal_loop s is)"

definition isGoal :: "NPuzzle \<Rightarrow> PuzzleState \<Rightarrow> bool" where
  "isGoal p current = isGoal_loop (state current) [0..<len p]"

definition misplacedTile :: "NPuzzle \<Rightarrow> PuzzleState \<Rightarrow> real" where
  "misplacedTile p current =
     fold (\<lambda>i cost.
        if state current ! i = 0 then cost
        else if state current ! i \<noteq> int i + 1 then cost + 1
        else cost)
       [0..<len p] 0"

definition euclideanDist :: "NPuzzle \<Rightarrow> PuzzleState \<Rightarrow> real" where
  "euclideanDist p current =
     fold (\<lambda>i cost.
        if state current ! i = 0 then cost
        else
          let rowDist = int (i div dim p) - ((state current ! i - 1) sdiv int (dim p));
              colDist = int (i mod dim p) - ((state current ! i - 1) smod int (dim p))
          in cost + sqrt (real_of_int ((rowDist * rowDist) + (colDist * colDist))))
       [0..<len p] 0"

definition manhattanDist :: "NPuzzle \<Rightarrow> PuzzleState \<Rightarrow> real" where
  "manhattanDist p current =
     fold (\<lambda>i cost.
        if state current ! i = 0 then cost
        else
          let rowDiff = ((state current ! i - 1) sdiv int (dim p)) - int (i div dim p);
              colDiff = ((state current ! i - 1) smod int (dim p)) - int (i mod dim p)
          in cost + real_of_int (\<bar>rowDiff\<bar> + \<bar>colDiff\<bar>))
       [0..<len p] 0"

text \<open>
  The column scan of \<^verbatim>\<open>manhattanDistLinearConflict\<close> steps \<^verbatim>\<open>j\<close> by \<^verbatim>\<open>dim\<close>. The
  guard \<open>0 < dim p\<close> is the model's: with \<^verbatim>\<open>dim = 0\<close> the C++ loop would not advance,
  but the constructor gives \<^verbatim>\<open>dim = 0\<close> only together with \<^verbatim>\<open>len = 0\<close>, where the
  enclosing loop has no iteration.
\<close>

function colConflicts :: "NPuzzle \<Rightarrow> PuzzleState \<Rightarrow> nat \<Rightarrow> nat \<Rightarrow> real \<Rightarrow> real" where
  "colConflicts p current i j cost =
     (if j < len p \<and> 0 < dim p then
        colConflicts p current i (j + dim p)
          (if state current ! j = 0 then cost
           else if (state current ! j - 1) smod int (dim p) \<noteq> int (i mod dim p) then cost
           else if state current ! j < state current ! i then cost + 2
           else cost)
      else cost)"
  by pat_completeness auto
termination
  by (relation "measure (\<lambda>(p, current, i, j, cost). len p - j)") auto

declare colConflicts.simps [simp del]

definition rowConflicts :: "NPuzzle \<Rightarrow> PuzzleState \<Rightarrow> nat \<Rightarrow> real \<Rightarrow> real" where
  "rowConflicts p current i cost =
     fold (\<lambda>j cost.
        if state current ! j = 0 then cost
        else if (state current ! j - 1) sdiv int (dim p) \<noteq> int (i div dim p) then cost
        else if state current ! j < state current ! i then cost + 2
        else cost)
       [i + 1..<((i div dim p) * dim p) + dim p] cost"

definition manhattanDistLinearConflict :: "NPuzzle \<Rightarrow> PuzzleState \<Rightarrow> real" where
  "manhattanDistLinearConflict p current =
     fold (\<lambda>i cost.
        if state current ! i = 0 then cost
        else
          let cost1 = (if (state current ! i - 1) sdiv int (dim p) = int (i div dim p)
                       then rowConflicts p current i cost else cost);
              cost2 = (if (state current ! i - 1) smod int (dim p) = int (i mod dim p)
                       then colConflicts p current i (i + dim p) cost1 else cost1);
              rowDiff = ((state current ! i - 1) sdiv int (dim p)) - int (i div dim p);
              colDiff = ((state current ! i - 1) smod int (dim p)) - int (i mod dim p)
          in cost2 + real_of_int (\<bar>rowDiff\<bar> + \<bar>colDiff\<bar>))
       [0..<len p] 0"

definition getHeuristicCost :: "NPuzzle \<Rightarrow> PuzzleState \<Rightarrow> int \<Rightarrow> real" where
  "getHeuristicCost p current heuristic =
     (if heuristic = 2 then misplacedTile p current
      else if heuristic = 3 then euclideanDist p current
      else if heuristic = 4 then manhattanDist p current
      else if heuristic = 5 then manhattanDistLinearConflict p current
      else 0)"

section \<open>Transition generator\<close>

text \<open>
  Each child is a copy of \<^verbatim>\<open>current\<close> with two vector cells overwritten, the blank
  index moved and the move tagged; the children are appended in the order UP, DOWN,
  LEFT, RIGHT. The guards are compared as C++ \<^verbatim>\<open>int\<close>s (\<^verbatim>\<open>dim - 1\<close> is \<open>-1\<close> for
  \<^verbatim>\<open>dim = 0\<close>).
\<close>

definition generateChildren :: "NPuzzle \<Rightarrow> PuzzleState \<Rightarrow> PuzzleState list" where
  "generateChildren p current =
     (let currentRow = blankIdx current div dim p;
          currentCol = blankIdx current mod dim p;
          b = blankIdx current;
          s = state current;
          up = (if 0 < currentRow
                then [current\<lparr>state := (s[b := s ! (b - dim p)])[b - dim p := 0],
                               blankIdx := b - dim p, move := 1\<rparr>]
                else []);
          down = (if int currentRow < int (dim p) - 1
                  then [current\<lparr>state := (s[b := s ! (b + dim p)])[b + dim p := 0],
                                 blankIdx := b + dim p, move := 2\<rparr>]
                  else []);
          left = (if 0 < currentCol
                  then [current\<lparr>state := (s[b := s ! (b - 1)])[b - 1 := 0],
                                 blankIdx := b - 1, move := 3\<rparr>]
                  else []);
          right = (if int currentCol < int (dim p) - 1
                   then [current\<lparr>state := (s[b := s ! (b + 1)])[b + 1 := 0],
                                  blankIdx := b + 1, move := 4\<rparr>]
                   else [])
      in up @ down @ left @ right)"

section \<open>Canonical key\<close>

text \<open>\<^verbatim>\<open>std::to_string\<close> on an \<^verbatim>\<open>int\<close>: the decimal digits, after a minus sign for a
  negative value.\<close>

function to_string_nat :: "nat \<Rightarrow> string" where
  "to_string_nat n =
     (if n < 10 then [''0123456789'' ! n]
      else to_string_nat (n div 10) @ [''0123456789'' ! (n mod 10)])"
  by pat_completeness auto
termination
  by (relation "measure (\<lambda>n. n)") auto

declare to_string_nat.simps [simp del]

definition to_string :: "int \<Rightarrow> string" where
  "to_string i = (if i < 0 then CHR ''-'' # to_string_nat (nat (- i)) else to_string_nat (nat i))"

definition getKey :: "NPuzzle \<Rightarrow> PuzzleState \<Rightarrow> string" where
  "getKey p current =
     fold (\<lambda>i key. key @ to_string (state current ! i)) [0..<len p] []"

section \<open>Path reconstruction\<close>

text \<open>
  \<^verbatim>\<open>retracePath\<close> follows parent keys through the explored map until it meets the
  empty key. Nothing in the loop bounds the walk, so it is a partial function:
  \<open>None\<close> stands for a walk that never ends.
\<close>

partial_function (option) retrace_loop ::
  "(string \<Rightarrow> PuzzleState) \<Rightarrow> string \<Rightarrow> PuzzleState list \<Rightarrow> PuzzleState list option" where
  "retrace_loop explored pKey path =
     (if pKey \<noteq> [] then
        retrace_loop explored (parentKey (explored pKey)) (explored pKey # path)
      else Some path)"

definition retracePath :: "NPuzzle \<Rightarrow> PuzzleState \<Rightarrow> PuzzleState list option" where
  "retracePath p current = retrace_loop (exploredStates p) (parentKey current) [current]"

section \<open>Search engine\<close>

text \<open>
  The frontier is a \<^verbatim>\<open>std::priority_queue\<close> under \<^verbatim>\<open>CompareCost\<close>: \<^verbatim>\<open>top()\<close> is an
  entry that no other entry undercuts in \<^verbatim>\<open>f\<close>. Which of several entries of equal
  \<^verbatim>\<open>f\<close> it is depends on the library's heap, which is not part of the repository; the
  model keeps the entries in the order they were pushed and takes the oldest entry of
  least \<^verbatim>\<open>f\<close>.
\<close>

fun top_from :: "PuzzleState \<Rightarrow> PuzzleState list \<Rightarrow> PuzzleState" where
  "top_from best [] = best"
| "top_from best (x # xs) = (if f x < f best then top_from x xs else top_from best xs)"

definition queue_top :: "PuzzleState list \<Rightarrow> PuzzleState" where
  "queue_top q = top_from (hd q) (tl q)"

definition queue_pop :: "PuzzleState list \<Rightarrow> PuzzleState list" where
  "queue_pop q = remove1 (queue_top q) q"

definition queue_push :: "PuzzleState \<Rightarrow> PuzzleState list \<Rightarrow> PuzzleState list" where
  "queue_push x q = q @ [x]"

text \<open>The loop over the children of the state being expanded; it changes the frontier
  queue and the frontier map.\<close>

fun admitChildren ::
  "int \<Rightarrow> PuzzleState \<Rightarrow> string \<Rightarrow> PuzzleState list \<Rightarrow> PuzzleState list \<times> NPuzzle
     \<Rightarrow> PuzzleState list \<times> NPuzzle" where
  "admitChildren heuristic current currentKey [] (q, p) = (q, p)"
| "admitChildren heuristic current currentKey (c # cs) (q, p) =
     (let childKey = getKey p c in
      if state (frontierStates p childKey) \<noteq> [] \<or> state (exploredStates p childKey) \<noteq> []
      then admitChildren heuristic current currentKey cs (q, p)
      else
        let c1 = c\<lparr>g := g current + 1\<rparr>;
            c2 = c1\<lparr>h := getHeuristicCost p c1 heuristic\<rparr>;
            c3 = c2\<lparr>f := real_of_int (g c2) + h c2\<rparr>;
            c4 = c3\<lparr>parentKey := currentKey\<rparr>
        in admitChildren heuristic current currentKey cs
             (queue_push c4 q, p\<lparr>frontierStates := (frontierStates p)(childKey := c4)\<rparr>))"

text \<open>One expansion: the body of \<^verbatim>\<open>if (exploredStates[currentKey].state.empty())\<close>.\<close>

definition expand ::
  "int \<Rightarrow> PuzzleState \<Rightarrow> string \<Rightarrow> PuzzleState list \<times> NPuzzle \<Rightarrow> PuzzleState list \<times> NPuzzle" where
  "expand heuristic current currentKey qp =
     (let p1 = (snd qp)\<lparr>expanded := expanded (snd qp) + 1\<rparr>;
          p2 = p1\<lparr>exploredStates := (exploredStates p1)(currentKey := current)\<rparr>;
          qp3 = admitChildren heuristic current currentKey (generateChildren p2 current)
                  (fst qp, p2)
      in if maxQueue (snd qp3) < length (fst qp3)
         then (fst qp3, (snd qp3)\<lparr>maxQueue := length (fst qp3)\<rparr>)
         else qp3)"

text \<open>
  The \<^verbatim>\<open>while (!frontierQueue.empty())\<close> loop of \<^verbatim>\<open>solve\<close>. The code has no bound on
  its iterations; \<open>None\<close> stands for a run that does not return.
\<close>

partial_function (option) searchLoop ::
  "int \<Rightarrow> PuzzleState list \<Rightarrow> NPuzzle \<Rightarrow> NPuzzle option" where
  "searchLoop heuristic q p =
     (if q \<noteq> [] then
        (let current = queue_top q;
             currentKey = getKey p current;
             q1 = queue_pop q;
             p1 = p\<lparr>frontierStates := (frontierStates p)(currentKey := PuzzleState_default)\<rparr>
         in if isGoal p1 current then
              Option.bind (retracePath p1 current)
                (\<lambda>path. Some (p1\<lparr>result := path, goalDepth := length path\<rparr>))
            else if state (exploredStates p1 currentKey) = [] then
              searchLoop heuristic (fst (expand heuristic current currentKey (q1, p1)))
                (snd (expand heuristic current currentKey (q1, p1)))
            else searchLoop heuristic q1 p1)
      else Some p)"

text \<open>\<^verbatim>\<open>solve\<close> returns the object as the call leaves it; the vector it returns is the
  \<^const>\<open>result\<close> field of that object.\<close>

definition solve :: "NPuzzle \<Rightarrow> int \<Rightarrow> NPuzzle option" where
  "solve p heuristic =
     (if \<not> solvable p then Some (p\<lparr>result := []\<rparr>)
      else
        let s1 = (start p)\<lparr>g := 0\<rparr>;
            s2 = s1\<lparr>h := getHeuristicCost p s1 heuristic\<rparr>;
            s3 = s2\<lparr>f := real_of_int (g s2) + h s2\<rparr>;
            p1 = p\<lparr>start := s3\<rparr>;
            currentKey = getKey p1 s3;
            p2 = p1\<lparr>frontierStates := (frontierStates p1)(currentKey := s3)\<rparr>
        in searchLoop heuristic (queue_push s3 []) p2)"

section \<open>Default puzzles\<close>

text \<open>Three of the grids of \<^verbatim>\<open>puzzles.h\<close> (namespace \<^verbatim>\<open>DefaultPuzzle\<close>).\<close>

definition DefaultPuzzle_easy :: "int list" where
  "DefaultPuzzle_easy = [1, 2, 0,
                         4, 5, 3,
                         7, 8, 6]"

definition DefaultPuzzle_impossible :: "int list" where
  "DefaultPuzzle_impossible = [1, 2, 3,
                               4, 5, 6,
                               8, 7, 0]"

definition Fifteen_trivial :: "int list" where
  "Fifteen_trivial = [1,  2,  3,  4,
                      5,  6,  7,  8,
                      9,  10, 11, 12,
                      13, 14, 15, 0]"

text \<open>A second arrangement of the 15-puzzle. Read as decimal digits without
  separators it is the same digit string as \<^const>\<open>Fifteen_trivial\<close>.\<close>

definition Fifteen_shifted :: "int list" where
  "Fifteen_shifted = [12, 3,  4,  5,
                      6,  7,  8,  9,
                      10, 1,  11, 2,
                      13, 14, 15, 0]"

section \<open>Notions of the specification\<close>

text \<open>A valid grid: a perfect-square number of cells holding each of \<open>0..N\<close> once.\<close>

definition valid_grid :: "int list \<Rightarrow> bool" where
  "valid_grid grid =
     (list_ex (\<lambda>d. d * d = length grid) [1..<Suc (length grid)] \<and>
      distinct grid \<and> list_all (\<lambda>v. 0 \<le> v \<and> v < int (length grid)) grid)"

text \<open>The all-in-place arrangement of side \<open>d\<close>: \<open>1..d\<^sup>2-1\<close> followed by the blank.\<close>

definition goalGrid :: "nat \<Rightarrow> int list" where
  "goalGrid d = map int [1..<d * d] @ [0]"

text \<open>
  The parity policy in the specification's words. An inversion is a pair of positions
  \<open>i < j\<close>, both non-blank, with the tile at \<open>j\<close> smaller than the tile at \<open>i\<close>; the
  blank's row from the bottom is \<open>dim - \<lfloor>blankIndex / dim\<rfloor>\<close>.
\<close>

definition inversions :: "int list \<Rightarrow> nat" where
  "inversions s =
     length (filter (\<lambda>(i, j). i < j \<and> s ! i \<noteq> 0 \<and> s ! j \<noteq> 0 \<and> s ! j < s ! i)
               (List.product [0..<length s] [0..<length s]))"

definition rowFromBottom :: "nat \<Rightarrow> nat \<Rightarrow> int" where
  "rowFromBottom d blankIndex = int d - int (blankIndex div d)"

definition parityPolicy :: "nat \<Rightarrow> int list \<Rightarrow> nat \<Rightarrow> bool" where
  "parityPolicy d s blankIndex =
     (if odd d then even (inversions s)
      else (odd (inversions s) \<and> even (rowFromBottom d blankIndex)) \<or>
           (even (inversions s) \<and> odd (rowFromBottom d blankIndex)))"






text \<open>
  Moves are tagged 1 (UP), 2 (DOWN), 3 (LEFT), 4 (RIGHT). Applying a move to a state is
  taking the child that \<^const>\<open>generateChildren\<close> tags with it, if the move is feasible.
\<close>

definition applyMove :: "NPuzzle \<Rightarrow> PuzzleState \<Rightarrow> int \<Rightarrow> PuzzleState option" where
  "applyMove p current m = find (\<lambda>c. move c = m) (generateChildren p current)"

definition inverseMove :: "int \<Rightarrow> int" where
  "inverseMove m = (if m = 1 then 2 else if m = 2 then 1 else if m = 3 then 4 else 3)"

section \<open>Invariant of the search loop\<close>

text \<open>
  The notions below are not part of the program; they state what the search loop
  preserves. A state is an arrangement of a grid when it has the grid's tiles, in some
  order, and its blank index points at the blank. The loop invariant says that every
  queued state is an arrangement that fails the goal test, and that a given key is
  occupied in the frontier map or in the explored map. The measure counts the keys of
  arrangements that are still unexplored, five times, plus the queue length: an
  expansion explores one key and pushes at most four children.
\<close>

definition arrangement :: "int list \<Rightarrow> PuzzleState \<Rightarrow> bool" where
  "arrangement grid c \<longleftrightarrow>
     length (state c) = length grid \<and> blankIdx c < length grid \<and>
     state c ! blankIdx c = 0 \<and> mset (state c) = mset grid"

definition search_inv :: "int list \<Rightarrow> string \<Rightarrow> PuzzleState list \<Rightarrow> NPuzzle \<Rightarrow> bool" where
  "search_inv grid K q p \<longleftrightarrow>
     len p = length grid \<and> len p = dim p * dim p \<and>
     (state (frontierStates p K) \<noteq> [] \<or> state (exploredStates p K) \<noteq> []) \<and>
     (\<forall>c\<in>set q. arrangement grid c \<and> \<not> isGoal p c)"

definition keys_of :: "int list \<Rightarrow> string set" where
  "keys_of grid =
     (\<lambda>s. getKey (NPuzzle_ctor grid) (PuzzleState_of s)) ` {s. mset s = mset grid}"

definition search_measure :: "int list \<Rightarrow> PuzzleState list \<Rightarrow> NPuzzle \<Rightarrow> nat" where
  "search_measure grid q p =
     5 * card {k \<in> keys_of grid. state (exploredStates p k) = []} + length q"

definition goal_key_blocked :: "int list \<Rightarrow> string \<Rightarrow> bool" where
  "goal_key_blocked grid K \<longleftrightarrow>
     (\<forall>p c. len p = length grid \<longrightarrow> arrangement grid c \<longrightarrow> isGoal p c \<longrightarrow> getKey p c = K)"

section \<open>Evaluation on concrete grids\<close>

lemmas upt_eval =
  upt_rec [of 0 "numeral n"] upt_rec [of "Suc 0" "numeral n"] numeral_2_eq_2 [symmetric] for n

lemmas to_string_nat_eval =
  to_string_nat.simps [of 0] to_string_nat.simps [of "Suc 0"] to_string_nat.simps [of "numeral n"]
  for n

lemma searchLoop_Nil: "searchLoop heuristic [] p = Some p"
  by (subst searchLoop.simps) simp

lemmas searchLoop_Cons = searchLoop.simps [of heuristic "x # xs" p] for heuristic x xs p

lemma retrace_loop_Nil: "retrace_loop explored [] path = Some path"
  by (subst retrace_loop.simps) simp

lemmas retrace_loop_Cons = retrace_loop.simps [of explored "c # cs" path] for explored c cs path

lemmas eval_defs =
  NPuzzle_ctor_def isSolvable_def inversionCount_def PuzzleState_of_def PuzzleState_default_def
  getKey_def to_string_def to_string_nat_eval isGoal_def getHeuristicCost_def
  manhattanDist_def misplacedTile_def generateChildren_def retracePath_def
  queue_top_def queue_pop_def queue_push_def expand_def solve_def
  Let_def signed_divide_int_def signed_modulo_int_def upt_eval
  searchLoop_Nil searchLoop_Cons retrace_loop_Nil retrace_loop_Cons

section \<open>Counting loops\<close>

lemma fold_count_real:
  "fold (\<lambda>i (cost::real). if P i then cost + 1 else cost) xs c = c + real (length (filter P xs))"
  by (induction xs arbitrary: c) auto

lemma fold_count_nat:
  "fold (\<lambda>i (cnt::nat). if P i then cnt + 1 else cnt) xs c = c + length (filter P xs)"
  by (induction xs arbitrary: c) auto


lemma misplacedTile_count:
  "misplacedTile p s =
     real (length (filter (\<lambda>i. state s ! i \<noteq> 0 \<and> state s ! i \<noteq> int i + 1) [0..<len p]))"
proof -
  have "misplacedTile p s =
      fold (\<lambda>i (cost::real). if state s ! i \<noteq> 0 \<and> state s ! i \<noteq> int i + 1 then cost + 1 else cost)
        [0..<len p] 0"
    unfolding misplacedTile_def
    by (rule arg_cong [where f = "\<lambda>F. fold F [0..<len p] 0"]) (auto simp: fun_eq_iff)
  then show ?thesis by (simp add: fold_count_real)
qed

lemma isGoal_loop_filter:
  "isGoal_loop s xs = (filter (\<lambda>i. s ! i \<noteq> 0 \<and> s ! i \<noteq> int i + 1) xs = [])"
  by (induction xs) auto

section \<open>The heuristic evaluator\<close>









text \<open>
  Claim C10. On a state of the instance's length the goal test succeeds exactly when
  the misplaced-tile heuristic is 0.
\<close>

theorem isGoal_iff_misplacedTile_zero:
  "length (state s) = len p \<Longrightarrow> isGoal p s \<longleftrightarrow> misplacedTile p s = 0"
  by (simp add: isGoal_def isGoal_loop_filter misplacedTile_count)

theorem isGoal_iff_misplacedTile_zero_witness:
  "length (state (start (NPuzzle_ctor Fifteen_trivial))) = len (NPuzzle_ctor Fifteen_trivial) \<and>
   isGoal (NPuzzle_ctor Fifteen_trivial) (start (NPuzzle_ctor Fifteen_trivial)) \<and>
   misplacedTile (NPuzzle_ctor Fifteen_trivial) (start (NPuzzle_ctor Fifteen_trivial)) = 0"
  using isGoal_iff_misplacedTile_zero [of "start (NPuzzle_ctor Fifteen_trivial)" "NPuzzle_ctor Fifteen_trivial"]
  by (simp add: eval_defs Fifteen_trivial_def cong: let_weak_cong)

section \<open>Unsolvable grids\<close>

text \<open>
  Claim C3. When the solvability check of a freshly constructed instance fails, solve
  returns an empty path at once and leaves the statistics at zero: no node is expanded.
  The grid \<^const>\<open>DefaultPuzzle_impossible\<close> (side 3, one inversion) is such a grid.
\<close>

theorem solve_unsolvable:
  "\<not> solvable (NPuzzle_ctor grid) \<Longrightarrow>
   \<exists>p'. solve (NPuzzle_ctor grid) heuristic = Some p' \<and> result p' = [] \<and>
        expanded p' = 0 \<and> maxQueue p' = 0 \<and> goalDepth p' = 0"
  by (simp add: solve_def) (simp add: NPuzzle_ctor_def Let_def)

theorem solve_unsolvable_witness:
  "dim (NPuzzle_ctor DefaultPuzzle_impossible) = 3 \<and>
   inversionCount (NPuzzle_ctor DefaultPuzzle_impossible) = 1 \<and>
   \<not> solvable (NPuzzle_ctor DefaultPuzzle_impossible) \<and>
   (\<exists>p'. solve (NPuzzle_ctor DefaultPuzzle_impossible) 1 = Some p' \<and> result p' = [] \<and>
        expanded p' = 0 \<and> maxQueue p' = 0 \<and> goalDepth p' = 0)"
proof -
  have a: "dim (NPuzzle_ctor DefaultPuzzle_impossible) = 3"
    by (simp add: NPuzzle_ctor_def DefaultPuzzle_impossible_def Let_def)
  have b: "inversionCount (NPuzzle_ctor DefaultPuzzle_impossible) = 1"
    by (simp add: eval_defs DefaultPuzzle_impossible_def cong: let_weak_cong)
  have c: "\<not> solvable (NPuzzle_ctor DefaultPuzzle_impossible)"
    by (simp add: eval_defs DefaultPuzzle_impossible_def cong: let_weak_cong)
  show ?thesis using a b c solve_unsolvable [OF c, of 1] by simp
qed

section \<open>The canonical key\<close>

text \<open>
  Claim C4 says that two valid grids of the same length have equal keys only if they are
  equal. The key of \<^const>\<open>Fifteen_shifted\<close> is the key of \<^const>\<open>Fifteen_trivial\<close>,
  although both are valid 15-puzzle grids and they differ.
\<close>

theorem getKey_collision:
  "valid_grid Fifteen_trivial \<and> valid_grid Fifteen_shifted \<and>
   Fifteen_shifted \<noteq> Fifteen_trivial \<and>
   getKey (NPuzzle_ctor Fifteen_trivial) (PuzzleState_of Fifteen_shifted) =
   getKey (NPuzzle_ctor Fifteen_trivial) (PuzzleState_of Fifteen_trivial)"
  by (simp add: eval_defs valid_grid_def Fifteen_trivial_def Fifteen_shifted_def cong: let_weak_cong)

section \<open>The default puzzle \<open>easy\<close>\<close>

text \<open>
  Claim C5 expects a path of six states for the grid \<^const>\<open>DefaultPuzzle_easy\<close>.
  The search does not return one.
\<close>

theorem easy_path_not_six_states:
  "\<not> (\<exists>p'. solve (NPuzzle_ctor DefaultPuzzle_easy) 1 = Some p' \<and> length (result p') = 6)"
  by (simp add: eval_defs DefaultPuzzle_easy_def cong: let_weak_cong)

text \<open>
  Claim C5, amended. The grid \<^const>\<open>DefaultPuzzle_easy\<close> is solvable, and under
  selector 1 (uniform cost) as under selector 4 (Manhattan) solve returns a path of three
  states, the start and two moves, that ends in the goal arrangement; the goal depth, which
  is the length of that path, is 3.
\<close>

theorem easy_solved_in_two_moves:
  "solvable (NPuzzle_ctor DefaultPuzzle_easy) \<and>
   map_option (\<lambda>p'. (map state (result p'), goalDepth p'))
     (solve (NPuzzle_ctor DefaultPuzzle_easy) 1) =
     Some ([[1, 2, 0, 4, 5, 3, 7, 8, 6], [1, 2, 3, 4, 5, 0, 7, 8, 6], [1, 2, 3, 4, 5, 6, 7, 8, 0]], 3) \<and>
   map_option (\<lambda>p'. (map state (result p'), goalDepth p'))
     (solve (NPuzzle_ctor DefaultPuzzle_easy) 4) =
     Some ([[1, 2, 0, 4, 5, 3, 7, 8, 6], [1, 2, 3, 4, 5, 0, 7, 8, 6], [1, 2, 3, 4, 5, 6, 7, 8, 0]], 3)"
  by (simp add: eval_defs DefaultPuzzle_easy_def cong: let_weak_cong)

section \<open>The solvability check\<close>

lemma fold_inner_inversions:
  "fold (\<lambda>j (cnt::nat). if s ! j = 0 then cnt else if s ! j < v then cnt + 1 else cnt) xs c
     = c + length (filter (\<lambda>j. s ! j \<noteq> 0 \<and> s ! j < v) xs)"
  by (induction xs arbitrary: c) auto

lemma fold_outer_inversions:
  "fold (\<lambda>i (cnt::nat). if s ! i = 0 then cnt else cnt + A i) xs c
     = c + sum_list (map (\<lambda>i. if s ! i = 0 then 0 else A i) xs)"
  by (induction xs arbitrary: c) auto

lemma length_filter_product:
  "length (filter P (List.product xs ys))
     = sum_list (map (\<lambda>x. length (filter (\<lambda>y. P (x, y)) ys)) xs)"
  by (induction xs) (auto simp: filter_map comp_def)

lemma filter_upt_above:
  assumes "i < n"
  shows "filter (\<lambda>j. i < j \<and> Q j) [0..<n] = filter Q [Suc i..<n]"
proof -
  have "[0..<n] = [0..<Suc i] @ [Suc i..<n]"
    using assms upt_add_eq_append [of 0 "Suc i" "n - Suc i"] by simp
  moreover have "filter (\<lambda>j. i < j \<and> Q j) [0..<Suc i] = []"
    by (auto simp: filter_empty_conv)
  moreover have "filter (\<lambda>j. i < j \<and> Q j) [Suc i..<n] = filter Q [Suc i..<n]"
    by (rule filter_cong) auto
  ultimately show ?thesis by (simp del: upt_Suc)
qed

lemma inversionCount_inversions:
  assumes "len p = length (state (start p))"
  shows "inversionCount p = inversions (state (start p))"
proof -
  let ?s = "state (start p)"
  let ?n = "length ?s"
  have "inversionCount p =
      sum_list (map (\<lambda>i. if ?s ! i = 0 then 0
                   else length (filter (\<lambda>j. ?s ! j \<noteq> 0 \<and> ?s ! j < ?s ! i) [i + 1..<?n])) [0..<?n])"
    unfolding inversionCount_def assms fold_inner_inversions fold_outer_inversions
    by simp
  also have "\<dots> =
      sum_list (map (\<lambda>i. length (filter (\<lambda>j. i < j \<and> ?s ! i \<noteq> 0 \<and> ?s ! j \<noteq> 0 \<and> ?s ! j < ?s ! i) [0..<?n]))
        [0..<?n])"
  proof (rule arg_cong [where f = sum_list], rule map_cong [OF refl])
    fix i assume "i \<in> set [0..<?n]"
    then have i: "i < ?n" by simp
    show "(if ?s ! i = 0 then 0
           else length (filter (\<lambda>j. ?s ! j \<noteq> 0 \<and> ?s ! j < ?s ! i) [i + 1..<?n]))
        = length (filter (\<lambda>j. i < j \<and> ?s ! i \<noteq> 0 \<and> ?s ! j \<noteq> 0 \<and> ?s ! j < ?s ! i) [0..<?n])"
      by (simp add: filter_upt_above [OF i])
  qed
  also have "\<dots> = inversions ?s"
    unfolding inversions_def by (simp add: length_filter_product)
  finally show ?thesis .
qed

lemma dim_of_square: "nat \<lfloor>sqrt (real (d * d))\<rfloor> = d"
  by simp

lemma locateBlank_range:
  "locateBlank xs i = 0 \<or> (i \<le> locateBlank xs i \<and> locateBlank xs i < i + length xs)"
proof (induction xs arbitrary: i)
  case Nil
  show ?case by simp
next
  case (Cons x xs)
  show ?case using Cons [of "Suc i"] by auto
qed

lemma locateBlank_less: "xs \<noteq> [] \<Longrightarrow> locateBlank xs 0 < length xs"
  using locateBlank_range [of xs 0] by auto

lemma row_from_bottom_positive:
  assumes "0 < d" "b < d * d"
  shows "0 < int d - int (b div d)"
proof -
  have "b div d < d" using assms by (simp add: less_mult_imp_div_less)
  then show ?thesis by simp
qed

lemma smod_two_pos: "0 < (k::int) \<Longrightarrow> k smod 2 = k mod 2"
  by (simp add: signed_modulo_int_def)

lemma blankIdx_ctor: "blankIdx (start (NPuzzle_ctor grid)) = locateBlank grid 0"
  by (simp add: NPuzzle_ctor_def Let_def PuzzleState_of_def)

lemma solvable_ctor_parity:
  assumes "0 < d" and "length grid = d * d"
  shows "solvable (NPuzzle_ctor grid) = parityPolicy d grid (locateBlank grid 0)"
proof -
  let ?p = "NPuzzle_ctor grid\<lparr>solvable := False\<rparr>"
  have ne: "grid \<noteq> []" using assms by auto
  have sol: "solvable (NPuzzle_ctor grid) = isSolvable ?p"
    by (simp add: NPuzzle_ctor_def Let_def)
  have d: "dim ?p = d" by (simp add: NPuzzle_ctor_def Let_def assms)
  have st: "state (start ?p) = grid" "len ?p = length grid"
    by (simp_all add: NPuzzle_ctor_def Let_def PuzzleState_of_def)
  have b: "blankIdx (start ?p) = locateBlank grid 0"
    by (simp add: blankIdx_ctor)
  have "blankIdx (start ?p) < d * d"
    using locateBlank_less [OF ne] assms by (simp add: blankIdx_ctor)
  then have pos: "0 < int d - int (blankIdx (start ?p) div d)"
    using assms(1) by (intro row_from_bottom_positive)
  have inv: "inversionCount ?p = inversions grid"
    using inversionCount_inversions [of ?p] st by simp
  have "isSolvable ?p = parityPolicy d grid (blankIdx (start ?p))"
    unfolding isSolvable_def parityPolicy_def rowFromBottom_def d inv
    using smod_two_pos [OF pos]
    by (auto simp: odd_iff_mod_2_eq_one even_iff_mod_2_eq_zero)
  then show ?thesis using sol b by simp
qed



section \<open>A start state that is already the goal\<close>

lemma length_goalGrid: "0 < d \<Longrightarrow> length (goalGrid d) = d * d"
  by (simp add: goalGrid_def)

lemma goalGrid_nth_tile: "i < d * d - 1 \<Longrightarrow> goalGrid d ! i = int i + 1"
  by (simp add: goalGrid_def nth_append)

lemma goalGrid_nth_blank: "goalGrid d ! (d * d - 1) = 0"
  by (simp add: goalGrid_def nth_append)

lemma locateBlank_append_zero:
  "0 \<notin> set xs \<Longrightarrow> locateBlank (xs @ [0]) i = i + length xs"
  by (induction xs arbitrary: i) auto

lemma locateBlank_goalGrid: "locateBlank (goalGrid d) 0 = d * d - 1"
  unfolding goalGrid_def by (subst locateBlank_append_zero) auto

lemma inversions_goalGrid: "0 < d \<Longrightarrow> inversions (goalGrid d) = 0"
proof -
  assume d: "0 < d"
  have "\<not> (i < j \<and> goalGrid d ! i \<noteq> 0 \<and> goalGrid d ! j \<noteq> 0 \<and> goalGrid d ! j < goalGrid d ! i)"
    if "j < d * d" for i j
  proof (cases "j = d * d - 1")
    case True
    then show ?thesis using goalGrid_nth_blank [of d] by simp
  next
    case False
    with that have "j < d * d - 1" by simp
    then show ?thesis by (auto simp: goalGrid_nth_tile)
  qed
  then show ?thesis
    unfolding inversions_def by (auto simp: filter_empty_conv length_goalGrid [OF d])
qed

lemma goal_row_from_bottom: "0 < d \<Longrightarrow> rowFromBottom d (d * d - 1) = 1"
proof -
  assume d: "0 < d"
  have "d * d - 1 = (d - 1) * d + (d - 1)"
    using d by (cases d) (simp_all add: algebra_simps)
  then have "(d * d - 1) div d = d - 1"
    using d by (metis add.commute diff_less div_mult_self3 div_less less_numeral_extra(1) add_0 not_gr_zero)
  then show ?thesis using d by (simp add: rowFromBottom_def)
qed

lemma solvable_goalGrid: "0 < d \<Longrightarrow> solvable (NPuzzle_ctor (goalGrid d))"
  using goal_row_from_bottom [of d]
  by (simp add: solvable_ctor_parity [of d] length_goalGrid locateBlank_goalGrid
      parityPolicy_def inversions_goalGrid)

lemma isGoal_loop_goalGrid: "0 < d \<Longrightarrow> isGoal_loop (goalGrid d) [0..<d * d]"
proof -
  assume d: "0 < d"
  have "goalGrid d ! i = 0 \<or> goalGrid d ! i = int i + 1" if "i < d * d" for i
    using that goalGrid_nth_blank [of d] goalGrid_nth_tile [of i d]
    by (cases "i = d * d - 1") auto
  then show ?thesis by (auto simp: isGoal_loop_filter filter_empty_conv)
qed

lemma ctor_fields:
  "len (NPuzzle_ctor grid) = length grid"
  "state (start (NPuzzle_ctor grid)) = grid"
  "parentKey (start (NPuzzle_ctor grid)) = []"
  "expanded (NPuzzle_ctor grid) = 0"
  by (simp_all add: NPuzzle_ctor_def Let_def PuzzleState_of_def)

text \<open>
  Claim C6. When the start grid is the goal arrangement (of any side \<open>d\<close>), solve returns
  a path of one state, the start state, and the nodes-expanded statistic stays 0: the goal
  test on the popped start state comes before any expansion.
\<close>

theorem solve_start_is_goal:
  "0 < d \<Longrightarrow>
   \<exists>p'. solve (NPuzzle_ctor (goalGrid d)) heuristic = Some p' \<and>
        result p' = [start p'] \<and> state (start p') = goalGrid d \<and>
        expanded p' = 0 \<and> goalDepth p' = 1"
  by (simp add: solve_def solvable_goalGrid queue_push_def searchLoop_Cons queue_top_def
      queue_pop_def isGoal_def ctor_fields length_goalGrid isGoal_loop_goalGrid retracePath_def
      retrace_loop_Nil Let_def)

theorem solve_start_is_goal_witness:
  "(0::nat) < 4 \<and> goalGrid 4 = Fifteen_trivial \<and>
   (\<exists>p'. solve (NPuzzle_ctor Fifteen_trivial) 1 = Some p' \<and>
        result p' = [start p'] \<and> state (start p') = Fifteen_trivial \<and>
        expanded p' = 0 \<and> goalDepth p' = 1)"
proof -
  have a: "goalGrid 4 = Fifteen_trivial"
    by (simp add: goalGrid_def Fifteen_trivial_def upt_eval)
  show ?thesis using solve_start_is_goal [of 4 1] a by simp
qed

section \<open>Move reversibility\<close>

lemma applyMove_eq:
  "applyMove p s m =
     (if m = 1 \<and> 0 < blankIdx s div dim p then
        Some (s\<lparr>state := (state s)[blankIdx s := state s ! (blankIdx s - dim p),
                                    blankIdx s - dim p := 0],
                blankIdx := blankIdx s - dim p, move := 1\<rparr>)
      else if m = 2 \<and> int (blankIdx s div dim p) < int (dim p) - 1 then
        Some (s\<lparr>state := (state s)[blankIdx s := state s ! (blankIdx s + dim p),
                                    blankIdx s + dim p := 0],
                blankIdx := blankIdx s + dim p, move := 2\<rparr>)
      else if m = 3 \<and> 0 < blankIdx s mod dim p then
        Some (s\<lparr>state := (state s)[blankIdx s := state s ! (blankIdx s - 1),
                                    blankIdx s - 1 := 0],
                blankIdx := blankIdx s - 1, move := 3\<rparr>)
      else if m = 4 \<and> int (blankIdx s mod dim p) < int (dim p) - 1 then
        Some (s\<lparr>state := (state s)[blankIdx s := state s ! (blankIdx s + 1),
                                    blankIdx s + 1 := 0],
                blankIdx := blankIdx s + 1, move := 4\<rparr>)
      else None)"
  by (simp add: applyMove_def generateChildren_def Let_def)

lemma swap_back:
  assumes "b < length xs" "c < length xs" "b \<noteq> c" "xs ! b = (0::int)"
  shows "((xs[b := xs ! c, c := 0])[c := (xs[b := xs ! c, c := 0]) ! b, b := 0]) = xs"
  using assms by (auto simp: list_eq_iff_nth_eq nth_list_update)

lemma div_sub_self: "0 < (d::nat) \<Longrightarrow> d \<le> b \<Longrightarrow> (b - d) div d = b div d - 1"
  by (simp add: le_div_geq)

lemma mod_sub_self: "(d::nat) \<le> b \<Longrightarrow> (b - d) mod d = b mod d"
  by (simp add: le_mod_geq)


text \<open>
  Claim C8. From a valid state (of the instance's length, which is a perfect square, with
  the blank index pointing at the 0 cell), every feasible move followed by its inverse
  (UP then DOWN, DOWN then UP, LEFT then RIGHT, RIGHT then LEFT) is feasible again and
  gives back the tile sequence and the blank index of the original state.
\<close>

theorem move_reversible:
  assumes sq: "len p = dim p * dim p"
    and ln: "length (state s) = len p"
    and bl: "blankIdx s < len p"
    and zero: "state s ! blankIdx s = 0"
    and mv: "applyMove p s m = Some c"
  shows "\<exists>c'. applyMove p c (inverseMove m) = Some c' \<and>
              state c' = state s \<and> blankIdx c' = blankIdx s"
proof -
  let ?b = "blankIdx s" and ?d = "dim p"
  have d: "0 < ?d" using sq bl by (cases "?d") auto
  have row: "?b div ?d < ?d" using sq bl d by (simp add: less_mult_imp_div_less)
  have col: "?b mod ?d < ?d" using d by simp
  consider (up) "m = 1" "0 < ?b div ?d"
    | (down) "m = 2" "int (?b div ?d) < int ?d - 1"
    | (left) "m = 3" "0 < ?b mod ?d"
    | (right) "m = 4" "int (?b mod ?d) < int ?d - 1"
    using mv unfolding applyMove_eq by (auto split: if_splits)
  then show ?thesis
  proof cases
    case up
    then have ge: "?d \<le> ?b" using d by (metis div_less leI less_numeral_extra(3))
    have c: "c = s\<lparr>state := (state s)[?b := state s ! (?b - ?d), ?b - ?d := 0],
                blankIdx := ?b - ?d, move := 1\<rparr>"
      using mv up unfolding applyMove_eq by simp
    have ne: "?b \<noteq> ?b - ?d" using d ge by simp
    have lt: "?b < length (state s)" "?b - ?d < length (state s)" using bl ln by simp_all
    have restore: "?b - ?d + ?d = ?b" using ge by simp
    have "int ((?b - ?d) div ?d) < int ?d - 1"
      using row up(2) by (simp add: div_sub_self [OF d ge])
    then show ?thesis
      using up(1) swap_back [OF lt ne zero]
      by (simp add: c applyMove_eq [of p] inverseMove_def restore)
  next
    case down
    have c: "c = s\<lparr>state := (state s)[?b := state s ! (?b + ?d), ?b + ?d := 0],
                blankIdx := ?b + ?d, move := 2\<rparr>"
      using mv down unfolding applyMove_eq by simp
    have r: "?b div ?d + 2 \<le> ?d" using down(2) by simp
    have "?b + ?d < (?b div ?d + 2) * ?d"
      using dividend_less_times_div [OF d, of ?b] by (simp add: algebra_simps)
    moreover have "(?b div ?d + 2) * ?d \<le> ?d * ?d"
      using r by (rule mult_le_mono1)
    ultimately have lt2: "?b + ?d < length (state s)" using ln sq by simp
    have ne: "?b \<noteq> ?b + ?d" using d by simp
    have lt: "?b < length (state s)" using bl ln by simp
    have "0 < (?b + ?d) div ?d" using d by simp
    then show ?thesis
      using down(1) swap_back [OF lt lt2 ne zero]
      by (simp add: c applyMove_eq [of p] inverseMove_def)
  next
    case left
    have c: "c = s\<lparr>state := (state s)[?b := state s ! (?b - 1), ?b - 1 := 0],
                blankIdx := ?b - 1, move := 3\<rparr>"
      using mv left unfolding applyMove_eq by simp
    have pos: "0 < ?b" using left(2) by (cases "?b") auto
    have ne: "?b \<noteq> ?b - 1" using pos by simp
    have lt: "?b < length (state s)" "?b - 1 < length (state s)" using bl ln by simp_all
    have m1: "(?b - 1) mod ?d = ?b mod ?d - 1"
      using left(2) pos by (metis mod_Suc Suc_pred' diff_Suc_1 less_numeral_extra(3))
    have "int ((?b - 1) mod ?d) < int ?d - 1" using col left(2) m1 by simp
    then show ?thesis
      using left(1) pos swap_back [OF lt ne zero]
      by (simp add: c applyMove_eq [of p] inverseMove_def)
  next
    case right
    have c: "c = s\<lparr>state := (state s)[?b := state s ! (?b + 1), ?b + 1 := 0],
                blankIdx := ?b + 1, move := 4\<rparr>"
      using mv right unfolding applyMove_eq by simp
    have s1: "Suc (?b mod ?d) < ?d" using right(2) by simp
    then have m1: "(?b + 1) mod ?d = Suc (?b mod ?d)" by (simp add: mod_Suc)
    have "?b < ?d + ?b div ?d * ?d" using d by (rule dividend_less_div_times)
    moreover have "Suc (?b div ?d) * ?d \<le> ?d * ?d"
      using row by (intro mult_le_mono1) simp
    moreover have "?b mod ?d = ?b - ?b div ?d * ?d"
      by (simp add: modulo_nat_def)
    ultimately have lt2: "?b + 1 < length (state s)" using s1 ln sq by simp
    have ne: "?b \<noteq> ?b + 1" by simp
    have lt: "?b < length (state s)" using bl ln by simp
    show ?thesis
      using right(1) swap_back [OF lt lt2 ne zero] m1
      by (simp add: c applyMove_eq [of p] inverseMove_def)
  qed
qed

theorem move_reversible_witness:
  "len (NPuzzle_ctor DefaultPuzzle_easy)
     = dim (NPuzzle_ctor DefaultPuzzle_easy) * dim (NPuzzle_ctor DefaultPuzzle_easy) \<and>
   length (state (start (NPuzzle_ctor DefaultPuzzle_easy))) = len (NPuzzle_ctor DefaultPuzzle_easy) \<and>
   blankIdx (start (NPuzzle_ctor DefaultPuzzle_easy)) < len (NPuzzle_ctor DefaultPuzzle_easy) \<and>
   state (start (NPuzzle_ctor DefaultPuzzle_easy)) ! blankIdx (start (NPuzzle_ctor DefaultPuzzle_easy)) = 0 \<and>
   applyMove (NPuzzle_ctor DefaultPuzzle_easy) (start (NPuzzle_ctor DefaultPuzzle_easy)) 2
     = Some \<lparr>state = [1, 2, 3, 4, 5, 0, 7, 8, 6], blankIdx = 5, g = 0, h = 0, f = 0,
             move = 2, parentKey = []\<rparr> \<and>
   (\<exists>c'. applyMove (NPuzzle_ctor DefaultPuzzle_easy)
           \<lparr>state = [1, 2, 3, 4, 5, 0, 7, 8, 6], blankIdx = 5, g = 0, h = 0, f = 0,
             move = 2, parentKey = []\<rparr> (inverseMove 2) = Some c' \<and>
         state c' = DefaultPuzzle_easy \<and> blankIdx c' = 2)"
proof -
  let ?p = "NPuzzle_ctor DefaultPuzzle_easy"
  let ?c = "\<lparr>state = [1, 2, 3, 4, 5, 0, 7, 8, 6], blankIdx = 5, g = 0, h = 0, f = 0,
             move = 2, parentKey = []\<rparr>"
  have a: "len ?p = dim ?p * dim ?p"
    by (simp add: NPuzzle_ctor_def Let_def DefaultPuzzle_easy_def)
  have b: "length (state (start ?p)) = len ?p"
    by (simp add: NPuzzle_ctor_def Let_def PuzzleState_of_def)
  have c: "blankIdx (start ?p) < len ?p"
    by (simp add: NPuzzle_ctor_def Let_def DefaultPuzzle_easy_def PuzzleState_of_def)
  have d: "state (start ?p) ! blankIdx (start ?p) = 0"
    by (simp add: NPuzzle_ctor_def Let_def DefaultPuzzle_easy_def PuzzleState_of_def)
  have e: "applyMove ?p (start ?p) 2 = Some ?c"
    by (simp add: applyMove_def generateChildren_def NPuzzle_ctor_def Let_def
        DefaultPuzzle_easy_def PuzzleState_of_def)
  have st: "state (start ?p) = DefaultPuzzle_easy" "blankIdx (start ?p) = 2"
    by (simp_all add: NPuzzle_ctor_def Let_def DefaultPuzzle_easy_def PuzzleState_of_def)
  show ?thesis
    using a b c d e move_reversible [OF a b c d e] by (simp add: st)
qed

section \<open>Linear conflicts\<close>


























section \<open>A solvable grid whose goal is never admitted\<close>

lemma finite_keys_of: "finite (keys_of grid)"
  unfolding keys_of_def by (intro finite_imageI mset_eq_finite)

lemma getKey_cong:
  "len p = len p' \<Longrightarrow> state c = state c' \<Longrightarrow> getKey p c = getKey p' c'"
  by (simp add: getKey_def)

lemma isGoal_cong:
  "len p = len p' \<Longrightarrow> state c = state c' \<Longrightarrow> isGoal p c = isGoal p' c'"
  by (simp add: isGoal_def)

lemma arrangement_cong:
  "state c = state c' \<Longrightarrow> blankIdx c = blankIdx c' \<Longrightarrow> arrangement grid c = arrangement grid c'"
  by (simp add: arrangement_def)

lemma key_in_keys_of:
  assumes "arrangement grid c" "len p = length grid"
  shows "getKey p c \<in> keys_of grid"
proof -
  have "getKey p c = getKey (NPuzzle_ctor grid) (PuzzleState_of (state c))"
    using assms(2) by (intro getKey_cong) (simp_all add: NPuzzle_ctor_def Let_def PuzzleState_of_def)
  moreover have "mset (state c) = mset grid" using assms(1) by (simp add: arrangement_def)
  ultimately show ?thesis unfolding keys_of_def by blast
qed

lemma top_from_mem: "top_from best xs \<in> set (best # xs)"
proof (induction xs arbitrary: best)
  case Nil
  show ?case by simp
next
  case (Cons a xs)
  show ?case using Cons [of a] Cons [of best] by auto
qed

lemma queue_top_mem: "q \<noteq> [] \<Longrightarrow> queue_top q \<in> set q"
  using top_from_mem [of "hd q" "tl q"] by (cases q) (simp_all add: queue_top_def)

lemma queue_pop_length: "q \<noteq> [] \<Longrightarrow> length (queue_pop q) = length q - 1"
  by (simp add: queue_pop_def length_remove1 queue_top_mem)

lemma queue_pop_subset: "set (queue_pop q) \<subseteq> set q"
  by (simp add: queue_pop_def set_remove1_subset)

lemma length_generateChildren: "length (generateChildren p s) \<le> 4"
  by (simp add: generateChildren_def Let_def)

lemma swap_blank_arrangement:
  assumes a: "arrangement grid s" and k: "k < length grid"
  shows "arrangement grid
           (s\<lparr>state := (state s)[blankIdx s := state s ! k, k := 0], blankIdx := k, move := m\<rparr>)"
proof -
  let ?b = "blankIdx s" and ?xs = "state s"
  have b: "?b < length ?xs" "?xs ! ?b = 0" "length ?xs = length grid" "mset ?xs = mset grid"
    using a by (simp_all add: arrangement_def)
  have k': "k < length ?xs" using k b by simp
  have "mset (?xs[?b := ?xs ! k, k := ?xs ! ?b]) = mset ?xs"
    using mset_swap [OF k' b(1)] .
  then have "mset (?xs[?b := ?xs ! k, k := 0]) = mset grid"
    using b by simp
  then show ?thesis using k k' b by (simp add: arrangement_def)
qed

lemma generateChildren_arrangement:
  assumes a: "arrangement grid s" and sq: "len p = dim p * dim p" and ln: "len p = length grid"
    and c: "c \<in> set (generateChildren p s)"
  shows "arrangement grid c"
proof -
  let ?b = "blankIdx s" and ?d = "dim p"
  have bl: "?b < ?d * ?d" using a sq ln by (simp add: arrangement_def)
  then have d: "0 < ?d" by (cases ?d) auto
  have row: "?b div ?d < ?d" using bl d by (simp add: less_mult_imp_div_less)
  consider (up) "0 < ?b div ?d"
      "c = s\<lparr>state := (state s)[?b := state s ! (?b - ?d), ?b - ?d := 0],
              blankIdx := ?b - ?d, move := 1\<rparr>"
    | (down) "int (?b div ?d) < int ?d - 1"
      "c = s\<lparr>state := (state s)[?b := state s ! (?b + ?d), ?b + ?d := 0],
              blankIdx := ?b + ?d, move := 2\<rparr>"
    | (left) "0 < ?b mod ?d"
      "c = s\<lparr>state := (state s)[?b := state s ! (?b - 1), ?b - 1 := 0],
              blankIdx := ?b - 1, move := 3\<rparr>"
    | (right) "int (?b mod ?d) < int ?d - 1"
      "c = s\<lparr>state := (state s)[?b := state s ! (?b + 1), ?b + 1 := 0],
              blankIdx := ?b + 1, move := 4\<rparr>"
    using c by (auto simp: generateChildren_def Let_def split: if_splits)
  then show ?thesis
  proof cases
    case up
    have "?b - ?d < length grid" using bl sq ln by simp
    then show ?thesis unfolding up(2) by (rule swap_blank_arrangement [OF a])
  next
    case down
    have r: "?b div ?d + 2 \<le> ?d" using down(1) by simp
    have "?b + ?d < (?b div ?d + 2) * ?d"
      using dividend_less_times_div [OF d, of ?b] by (simp add: algebra_simps)
    moreover have "(?b div ?d + 2) * ?d \<le> ?d * ?d"
      using r by (rule mult_le_mono1)
    ultimately have "?b + ?d < length grid" using sq ln by simp
    then show ?thesis unfolding down(2) by (rule swap_blank_arrangement [OF a])
  next
    case left
    have "?b - 1 < length grid" using bl sq ln by simp
    then show ?thesis unfolding left(2) by (rule swap_blank_arrangement [OF a])
  next
    case right
    have s1: "Suc (?b mod ?d) < ?d" using right(1) by simp
    have "?b < ?d + ?b div ?d * ?d" using d by (rule dividend_less_div_times)
    moreover have "Suc (?b div ?d) * ?d \<le> ?d * ?d"
      using row by (intro mult_le_mono1) simp
    moreover have "?b mod ?d = ?b - ?b div ?d * ?d"
      by (simp add: modulo_nat_def)
    ultimately have "?b + 1 < length grid" using s1 ln sq by simp
    then show ?thesis unfolding right(2) by (rule swap_blank_arrangement [OF a])
  qed
qed

lemma admitChildren_inv:
  assumes blk: "goal_key_blocked grid K"
  shows "len p = length grid \<Longrightarrow>
     state (frontierStates p K) \<noteq> [] \<or> state (exploredStates p K) \<noteq> [] \<Longrightarrow>
     \<forall>c\<in>set cs. arrangement grid c \<Longrightarrow>
     \<forall>x\<in>set q. arrangement grid x \<and> \<not> isGoal p x \<Longrightarrow>
     len (snd (admitChildren heuristic current ck cs (q, p))) = len p \<and>
     dim (snd (admitChildren heuristic current ck cs (q, p))) = dim p \<and>
     exploredStates (snd (admitChildren heuristic current ck cs (q, p))) = exploredStates p \<and>
     result (snd (admitChildren heuristic current ck cs (q, p))) = result p \<and>
     (state (frontierStates (snd (admitChildren heuristic current ck cs (q, p))) K) \<noteq> [] \<or>
      state (exploredStates (snd (admitChildren heuristic current ck cs (q, p))) K) \<noteq> []) \<and>
     (\<forall>x\<in>set (fst (admitChildren heuristic current ck cs (q, p))).
        arrangement grid x \<and> \<not> isGoal (snd (admitChildren heuristic current ck cs (q, p))) x) \<and>
     length (fst (admitChildren heuristic current ck cs (q, p))) \<le> length q + length cs"
proof (induction cs arbitrary: q p)
  case Nil
  then show ?case by simp
next
  case (Cons c cs)
  let ?key = "getKey p c"
  have ac: "arrangement grid c" and acs: "\<forall>c\<in>set cs. arrangement grid c"
    using Cons.prems(3) by simp_all
  show ?case
  proof (cases "state (frontierStates p ?key) \<noteq> [] \<or> state (exploredStates p ?key) \<noteq> []")
    case True
    then have eq: "admitChildren heuristic current ck (c # cs) (q, p)
                 = admitChildren heuristic current ck cs (q, p)"
      by (simp add: Let_def)
    show ?thesis
      unfolding eq using Cons.IH [OF Cons.prems(1) Cons.prems(2) acs Cons.prems(4)] by auto
  next
    case False
    define c4 where "c4 = c\<lparr>g := g current + 1,
        h := getHeuristicCost p (c\<lparr>g := g current + 1\<rparr>) heuristic,
        f := real_of_int (g current + 1) + getHeuristicCost p (c\<lparr>g := g current + 1\<rparr>) heuristic,
        parentKey := ck\<rparr>"
    define p' where "p' = p\<lparr>frontierStates := (frontierStates p)(?key := c4)\<rparr>"
    have eq: "admitChildren heuristic current ck (c # cs) (q, p)
                 = admitChildren heuristic current ck cs (q @ [c4], p')"
      using False by (simp add: Let_def c4_def p'_def queue_push_def)
    have neK: "?key \<noteq> K" using False Cons.prems(2) by auto
    have st4: "state c4 = state c" "blankIdx c4 = blankIdx c" by (simp_all add: c4_def)
    have a4: "arrangement grid c4" using ac arrangement_cong [OF st4] by simp
    have len': "len p' = length grid" using Cons.prems(1) by (simp add: p'_def)
    have key4: "getKey p c4 = ?key" by (rule getKey_cong) (simp_all add: st4)
    have ng4: "\<not> isGoal p c4"
    proof
      assume "isGoal p c4"
      then have "getKey p c4 = K"
        using blk a4 Cons.prems(1) unfolding goal_key_blocked_def by blast
      then show False using key4 neK by simp
    qed
    have goal': "isGoal p' x = isGoal p x" for x
      by (rule isGoal_cong) (simp_all add: p'_def)
    have i4: "state (frontierStates p' K) \<noteq> [] \<or> state (exploredStates p' K) \<noteq> []"
      using Cons.prems(2) neK by (simp add: p'_def)
    have q': "\<forall>x\<in>set (q @ [c4]). arrangement grid x \<and> \<not> isGoal p' x"
      using Cons.prems(4) a4 ng4 by (simp add: goal')
    have fields: "len p' = len p" "dim p' = dim p" "exploredStates p' = exploredStates p"
      "result p' = result p"
      by (simp_all add: p'_def)
    show ?thesis
      unfolding eq using Cons.IH [OF len' i4 acs q'] by (auto simp: fields)
  qed
qed

lemma expand_inv:
  assumes blk: "goal_key_blocked grid K" and ne: "grid \<noteq> []"
    and ln: "len p1 = length grid" and sq: "len p1 = dim p1 * dim p1"
    and cur: "arrangement grid current"
    and q1: "\<forall>x\<in>set q1. arrangement grid x \<and> \<not> isGoal p1 x"
    and i4: "ck \<noteq> K \<longrightarrow>
        state (frontierStates p1 K) \<noteq> [] \<or> state (exploredStates p1 K) \<noteq> []"
  shows "search_inv grid K (fst (expand heuristic current ck (q1, p1)))
           (snd (expand heuristic current ck (q1, p1)))"
    and "exploredStates (snd (expand heuristic current ck (q1, p1)))
           = (exploredStates p1)(ck := current)"
    and "result (snd (expand heuristic current ck (q1, p1))) = result p1"
    and "length (fst (expand heuristic current ck (q1, p1))) \<le> length q1 + 4"
proof -
  define p2 where "p2 = p1\<lparr>expanded := expanded p1 + 1,
                           exploredStates := (exploredStates p1)(ck := current)\<rparr>"
  define cs where "cs = generateChildren p2 current"
  define r where "r = admitChildren heuristic current ck cs (q1, p2)"
  have e: "expand heuristic current ck (q1, p1)
      = (if maxQueue (snd r) < length (fst r)
         then (fst r, (snd r)\<lparr>maxQueue := length (fst r)\<rparr>) else r)"
    by (simp add: expand_def Let_def r_def cs_def p2_def)
  have ln2: "len p2 = length grid" and sq2: "len p2 = dim p2 * dim p2"
    using ln sq by (simp_all add: p2_def)
  have cur_ne: "state current \<noteq> []"
    using cur ne by (auto simp: arrangement_def)
  have i42: "state (frontierStates p2 K) \<noteq> [] \<or> state (exploredStates p2 K) \<noteq> []"
    using i4 cur_ne by (cases "ck = K") (simp_all add: p2_def)
  have acs: "\<forall>c\<in>set cs. arrangement grid c"
    unfolding cs_def using generateChildren_arrangement [OF cur sq2 ln2] by blast
  have goal2: "isGoal p2 x = isGoal p1 x" for x
    by (rule isGoal_cong) (simp_all add: p2_def)
  have q2: "\<forall>x\<in>set q1. arrangement grid x \<and> \<not> isGoal p2 x"
    using q1 by (simp add: goal2)
  note inv = admitChildren_inv [OF blk ln2 i42 acs q2, of heuristic current ck, folded r_def]
  have lcs: "length cs \<le> 4" unfolding cs_def by (rule length_generateChildren)
  have goalr: "isGoal ((snd r)\<lparr>maxQueue := m\<rparr>) x = isGoal (snd r) x" for m x
    by (rule isGoal_cong) simp_all
  show "search_inv grid K (fst (expand heuristic current ck (q1, p1)))
           (snd (expand heuristic current ck (q1, p1)))"
    unfolding e search_inv_def using inv ln2 sq2 by (auto simp: goalr)
  show "exploredStates (snd (expand heuristic current ck (q1, p1)))
           = (exploredStates p1)(ck := current)"
    unfolding e using inv by (simp add: p2_def)
  show "result (snd (expand heuristic current ck (q1, p1))) = result p1"
    unfolding e using inv by (simp add: p2_def)
  show "length (fst (expand heuristic current ck (q1, p1))) \<le> length q1 + 4"
    unfolding e using inv lcs by simp
qed

lemma unexplored_shrinks:
  assumes "ck \<in> keys_of grid" "state (explored ck) = []" "state current \<noteq> []"
  shows "card {k \<in> keys_of grid. state (((explored)(ck := current)) k) = []}
           < card {k \<in> keys_of grid. state (explored k) = []}"
proof (rule psubset_card_mono)
  show "finite {k \<in> keys_of grid. state (explored k) = []}"
    using finite_keys_of by simp
  show "{k \<in> keys_of grid. state (((explored)(ck := current)) k) = []}
          \<subset> {k \<in> keys_of grid. state (explored k) = []}"
    using assms by auto
qed

lemma searchLoop_blocked:
  assumes blk: "goal_key_blocked grid K" and ne: "grid \<noteq> []"
  shows "search_inv grid K q p \<Longrightarrow>
         \<exists>p'. searchLoop heuristic q p = Some p' \<and> result p' = result p"
proof (induction "search_measure grid q p" arbitrary: q p rule: less_induct)
  case less
  note inv = less.prems
  show ?case
  proof (cases "q = []")
    case True
    then show ?thesis by (simp add: searchLoop_Nil)
  next
    case False
    define current where "current = queue_top q"
    define ck where "ck = getKey p current"
    define q1 where "q1 = queue_pop q"
    define p1 where "p1 = p\<lparr>frontierStates := (frontierStates p)(ck := PuzzleState_default)\<rparr>"
    have ln: "len p = length grid" and sq: "len p = dim p * dim p"
      and i4: "state (frontierStates p K) \<noteq> [] \<or> state (exploredStates p K) \<noteq> []"
      and qs: "\<forall>c\<in>set q. arrangement grid c \<and> \<not> isGoal p c"
      using inv by (simp_all add: search_inv_def)
    have mem: "current \<in> set q" unfolding current_def using False by (rule queue_top_mem)
    have cur: "arrangement grid current" and ng: "\<not> isGoal p current"
      using qs mem by simp_all
    have goal1: "isGoal p1 x = isGoal p x" for x
      by (rule isGoal_cong) (simp_all add: p1_def)
    have ln1: "len p1 = length grid" and sq1: "len p1 = dim p1 * dim p1"
      using ln sq by (simp_all add: p1_def)
    have q1s: "\<forall>x\<in>set q1. arrangement grid x \<and> \<not> isGoal p1 x"
      using qs queue_pop_subset [of q] by (auto simp: q1_def goal1)
    have lq1: "length q1 = length q - 1" unfolding q1_def using False by (rule queue_pop_length)
    have lq: "0 < length q" using False by simp
    have ex1: "exploredStates p1 = exploredStates p" and res1: "result p1 = result p"
      by (simp_all add: p1_def)
    have unfold: "searchLoop heuristic q p =
        (if state (exploredStates p1 ck) = [] then
           searchLoop heuristic (fst (expand heuristic current ck (q1, p1)))
             (snd (expand heuristic current ck (q1, p1)))
         else searchLoop heuristic q1 p1)"
      using False ng
      by (subst searchLoop.simps)
        (simp add: Let_def current_def [symmetric] ck_def [symmetric] q1_def [symmetric]
          p1_def [symmetric] goal1)
    show ?thesis
    proof (cases "state (exploredStates p1 ck) = []")
      case False
      have i41: "state (frontierStates p1 K) \<noteq> [] \<or> state (exploredStates p1 K) \<noteq> []"
        using i4 False by (cases "ck = K") (simp_all add: p1_def)
      have inv1: "search_inv grid K q1 p1"
        unfolding search_inv_def using ln1 sq1 i41 q1s by simp
      have "search_measure grid q1 p1 < search_measure grid q p"
        using lq1 lq by (simp add: search_measure_def ex1)
      from less.hyps [OF this inv1] show ?thesis
        using False unfold res1 by simp
    next
      case True
      let ?e = "expand heuristic current ck (q1, p1)"
      have i41: "ck \<noteq> K \<longrightarrow>
          state (frontierStates p1 K) \<noteq> [] \<or> state (exploredStates p1 K) \<noteq> []"
        using i4 by (simp add: p1_def)
      note e = expand_inv [OF blk ne ln1 sq1 cur q1s i41, where heuristic = heuristic]
      have ckK: "ck \<in> keys_of grid" unfolding ck_def using cur ln by (rule key_in_keys_of)
      have cur_ne: "state current \<noteq> []" using cur ne by (auto simp: arrangement_def)
      have "card {k \<in> keys_of grid. state (exploredStates (snd ?e) k) = []}
              < card {k \<in> keys_of grid. state (exploredStates p k) = []}"
        unfolding e(2) ex1 using ckK True cur_ne
        by (intro unexplored_shrinks) (simp_all add: ex1)
      then have "search_measure grid (fst ?e) (snd ?e) < search_measure grid q p"
        using e(4) lq1 lq by (simp add: search_measure_def)
      from less.hyps [OF this e(1)] show ?thesis
        using True unfold e(3) res1 by simp
    qed
  qed
qed

lemma getKey_Fifteen_shifted:
  "len p = 16 \<Longrightarrow> state c = Fifteen_shifted \<Longrightarrow> getKey p c = ''1234567891011121314150''"
  by (simp add: getKey_def Fifteen_shifted_def to_string_def to_string_nat_eval upt_eval)

lemma getKey_Fifteen_trivial:
  "len p = 16 \<Longrightarrow> state c = Fifteen_trivial \<Longrightarrow> getKey p c = ''1234567891011121314150''"
  by (simp add: getKey_def Fifteen_trivial_def to_string_def to_string_nat_eval upt_eval)

lemma goalGrid_4: "goalGrid 4 = Fifteen_trivial"
  by (simp add: goalGrid_def Fifteen_trivial_def upt_eval)

lemma mset_Fifteen: "mset Fifteen_shifted = mset Fifteen_trivial"
  by (simp add: Fifteen_shifted_def Fifteen_trivial_def)

lemma goal_arrangement_is_trivial:
  assumes a: "arrangement Fifteen_shifted c" and g: "isGoal_loop (state c) [0..<16]"
  shows "state c = Fifteen_trivial"
proof -
  let ?s = "state c"
  have len: "length ?s = 16" and ms: "mset ?s = mset Fifteen_shifted"
    using a by (simp_all add: arrangement_def Fifteen_shifted_def)
  have dist: "distinct ?s"
    using mset_eq_imp_distinct_iff [OF ms] by (simp add: Fifteen_shifted_def)
  have tiles: "?s ! i = 0 \<or> ?s ! i = int i + 1" if "i < 16" for i
    using g that by (auto simp: isGoal_loop_filter filter_empty_conv)
  have "?s ! 15 \<in> set ?s" using len by (intro nth_mem) simp
  then have "?s ! 15 \<in> set Fifteen_shifted" using mset_eq_setD [OF ms] by simp
  then have "?s ! 15 \<noteq> 16" by (auto simp: Fifteen_shifted_def)
  then have last: "?s ! 15 = 0" using tiles [of 15] by simp
  have front: "?s ! i = int i + 1" if "i < 15" for i
  proof -
    have "?s ! i \<noteq> ?s ! 15"
      using dist len that by (simp add: nth_eq_iff_index_eq)
    then show ?thesis using tiles [of i] that last by auto
  qed
  have "?s ! i = goalGrid 4 ! i" if "i < 16" for i
  proof (cases "i = 15")
    case True
    then show ?thesis using last goalGrid_nth_blank [of 4] by simp
  next
    case False
    then have "i < 15" using that by simp
    then show ?thesis using front [of i] goalGrid_nth_tile [of i 4] by simp
  qed
  then have "?s = goalGrid 4"
    using len by (intro nth_equalityI) (simp_all add: length_goalGrid)
  then show ?thesis by (simp add: goalGrid_4)
qed

lemma goal_key_blocked_Fifteen_shifted:
  "goal_key_blocked Fifteen_shifted ''1234567891011121314150''"
  unfolding goal_key_blocked_def
proof (intro allI impI)
  fix p c
  assume ln: "len p = length Fifteen_shifted" and a: "arrangement Fifteen_shifted c"
    and g: "isGoal p c"
  have l16: "len p = 16" using ln by (simp add: Fifteen_shifted_def)
  have "state c = Fifteen_trivial"
    using a g by (intro goal_arrangement_is_trivial) (simp_all add: isGoal_def l16)
  then show "getKey p c = ''1234567891011121314150''"
    using l16 by (intro getKey_Fifteen_trivial)
qed

lemma ctor_Fifteen_shifted:
  "len (NPuzzle_ctor Fifteen_shifted) = 16"
  "dim (NPuzzle_ctor Fifteen_shifted) = 4"
  "solvable (NPuzzle_ctor Fifteen_shifted)"
  "state (start (NPuzzle_ctor Fifteen_shifted)) = Fifteen_shifted"
  "blankIdx (start (NPuzzle_ctor Fifteen_shifted)) = 15"
  "result (NPuzzle_ctor Fifteen_shifted) = []"
  by (simp_all add: eval_defs Fifteen_shifted_def cong: let_weak_cong)

text \<open>
  Claim C1 says that solve returns an empty path only if the solvability check fails.
  \<^const>\<open>Fifteen_shifted\<close> is a valid grid that passes the check, and the goal
  arrangement can be reached from it. But its key is the key of the goal arrangement, so
  the goal is discarded as a duplicate whenever it is generated: for every selector the
  search runs until the frontier is empty and returns the empty path.
\<close>

theorem solve_misses_goal_of_solvable_grid:
  "valid_grid Fifteen_shifted \<and> solvable (NPuzzle_ctor Fifteen_shifted) \<and>
   (\<exists>p'. solve (NPuzzle_ctor Fifteen_shifted) heuristic = Some p' \<and> result p' = [])"
proof -
  let ?p0 = "NPuzzle_ctor Fifteen_shifted"
  let ?K = "''1234567891011121314150''"
  define s3 where "s3 = (start ?p0)\<lparr>g := 0,
      h := getHeuristicCost ?p0 ((start ?p0)\<lparr>g := 0\<rparr>) heuristic,
      f := real_of_int 0 + getHeuristicCost ?p0 ((start ?p0)\<lparr>g := 0\<rparr>) heuristic\<rparr>"
  define p2 where "p2 = ?p0\<lparr>start := s3,
      frontierStates := (frontierStates ?p0)(getKey (?p0\<lparr>start := s3\<rparr>) s3 := s3)\<rparr>"
  have valid: "valid_grid Fifteen_shifted"
    by (simp add: valid_grid_def Fifteen_shifted_def upt_eval)
  have run: "solve ?p0 heuristic = searchLoop heuristic [s3] p2"
    using ctor_Fifteen_shifted(3)
    by (simp add: solve_def Let_def queue_push_def s3_def p2_def)
  have st3: "state s3 = Fifteen_shifted" "blankIdx s3 = 15"
    by (simp_all add: s3_def ctor_Fifteen_shifted)
  have key3: "getKey (?p0\<lparr>start := s3\<rparr>) s3 = ?K"
    by (rule getKey_Fifteen_shifted) (simp_all add: ctor_Fifteen_shifted st3)
  have ln2: "len p2 = 16" "dim p2 = 4" "result p2 = []"
    by (simp_all add: p2_def ctor_Fifteen_shifted)
  have arr: "arrangement Fifteen_shifted s3"
    by (simp add: arrangement_def st3) (simp add: Fifteen_shifted_def)
  have ng: "\<not> isGoal p2 s3"
    by (simp add: isGoal_def ln2 st3 Fifteen_shifted_def upt_eval)
  have fr: "state (frontierStates p2 ?K) \<noteq> []"
    by (simp add: p2_def key3 st3) (simp add: Fifteen_shifted_def)
  have inv: "search_inv Fifteen_shifted ?K [s3] p2"
    unfolding search_inv_def using arr ng fr ln2 by (simp add: Fifteen_shifted_def)
  have ne: "Fifteen_shifted \<noteq> []" by (simp add: Fifteen_shifted_def)
  obtain p' where "searchLoop heuristic [s3] p2 = Some p'" "result p' = result p2"
    using searchLoop_blocked [OF goal_key_blocked_Fifteen_shifted ne inv] by blast
  then show ?thesis
    using valid ctor_Fifteen_shifted(3) run ln2(3) by simp
qed

section \<open>Keys of grids with one-digit tiles\<close>

text \<open>
  The collision of the section on the canonical key needs a tile of two digits. Among
  states of the instance's length whose tiles all lie in \<open>0..9\<close> (grids of at most ten
  cells, the 8-puzzle among them), equal keys do mean equal tile sequences.
\<close>

lemma fold_append_concat:
  "fold (\<lambda>i key. key @ F i) xs acc = acc @ concat (map F xs)"
  by (induction xs arbitrary: acc) auto

lemma to_string_single_digit:
  "0 \<le> v \<Longrightarrow> v < 10 \<Longrightarrow> to_string v = [''0123456789'' ! nat v]"
proof -
  assume "0 \<le> v" "v < 10"
  then have "nat v < 10" by linarith
  then show ?thesis
    using \<open>0 \<le> v\<close> by (simp add: to_string_def to_string_nat.simps [of "nat v"])
qed

lemma digit_char_inj:
  assumes "a < 10" "b < 10" "''0123456789'' ! a = ''0123456789'' ! b"
  shows "a = b"
proof -
  have "distinct ''0123456789''" by simp
  then show ?thesis using assms by (simp add: nth_eq_iff_index_eq)
qed

lemma getKey_single_digit:
  assumes "length (state c) = len p" "\<forall>v\<in>set (state c). 0 \<le> v \<and> v < 10"
  shows "getKey p c = map (\<lambda>v. ''0123456789'' ! nat v) (state c)"
proof -
  have "getKey p c = concat (map (\<lambda>i. to_string (state c ! i)) [0..<length (state c)])"
    by (simp add: getKey_def fold_append_concat assms(1))
  also have "map (\<lambda>i. to_string (state c ! i)) [0..<length (state c)]
           = map (\<lambda>i. [''0123456789'' ! nat (state c ! i)]) [0..<length (state c)]"
    using assms(2) by (intro map_cong refl to_string_single_digit) auto
  also have "concat \<dots> = map (\<lambda>i. ''0123456789'' ! nat (state c ! i)) [0..<length (state c)]"
    by (induction "[0..<length (state c)]") (simp_all add: concat_map_singleton)
  also have "\<dots> = map (\<lambda>v. ''0123456789'' ! nat v) (map (\<lambda>i. state c ! i) [0..<length (state c)])"
    by (simp add: comp_def)
  also have "map (\<lambda>i. state c ! i) [0..<length (state c)] = state c"
    by (rule map_nth)
  finally show ?thesis .
qed

lemma getKey_injective_single_digit:
  assumes "length (state c) = len p" "length (state c') = len p"
    and "\<forall>v\<in>set (state c). 0 \<le> v \<and> v < 10" "\<forall>v\<in>set (state c'). 0 \<le> v \<and> v < 10"
    and "getKey p c = getKey p c'"
  shows "state c = state c'"
proof -
  have "map (\<lambda>v. ''0123456789'' ! nat v) (state c) = map (\<lambda>v. ''0123456789'' ! nat v) (state c')"
    using assms by (simp add: getKey_single_digit)
  moreover have "inj_on (\<lambda>v. ''0123456789'' ! nat v) (set (state c) \<union> set (state c'))"
  proof (rule inj_onI)
    fix x y
    assume x: "x \<in> set (state c) \<union> set (state c')" and y: "y \<in> set (state c) \<union> set (state c')"
      and e: "''0123456789'' ! nat x = ''0123456789'' ! nat y"
    have "0 \<le> x \<and> x < 10" "0 \<le> y \<and> y < 10" using x y assms(3,4) by auto
    then have "nat x < 10" "nat y < 10" by linarith+
    then have "nat x = nat y" using e by (intro digit_char_inj)
    then show "x = y" using \<open>0 \<le> x \<and> x < 10\<close> \<open>0 \<le> y \<and> y < 10\<close> by linarith
  qed
  ultimately show ?thesis by (simp add: inj_on_map_eq_map)
qed

end
